theory Spec2Isabelle
  imports Main "HOL-Library.Word"
begin

section \<open>Data model of syphon/hash.py\<close>

text \<open>
  Python strings are modelled as HOL strings (lists of 8-bit characters), so the model
  covers text whose code points are below 256. The bytes fed to a hash object are
  8-bit words.
\<close>

type_synonym byte = "8 word"

text \<open>
  The exceptions that reach the caller, as values. \<open>ValueError\<close> and \<open>TypeError\<close>
  carry the message, \<open>MalformedLineError\<close> the stripped line, \<open>OSError\<close> the path
  whose \<open>open\<close> failed; \<open>UnicodeDecodeError\<close> is raised by a text read that meets
  bytes which are not text.
\<close>

datatype error =
    ValueError string
  | TypeError string
  | MalformedLineError string
  | OSError string
  | UnicodeDecodeError

text \<open>
  The part of hashlib the module uses, taken as a parameter:
  \<open>algorithms_available\<close> is the set of names, \<open>new_name v\<close> is the \<open>name\<close> of the object
  \<open>hashlib.new(v)\<close> returns (\<open>None\<close> when it raises \<open>ValueError\<close>), and
  \<open>hexdigest_of n d\<close> is \<open>hexdigest()\<close> of an object named \<open>n\<close> that was fed the bytes \<open>d\<close>
  (\<open>None\<close> when the call without arguments raises \<open>TypeError\<close>, as it does for the
  algorithms of variable digest length).
\<close>

record hashlib =
  algorithms_available :: "string list"
  new_name :: "string \<Rightarrow> string option"
  hexdigest_of :: "string \<Rightarrow> byte list \<Rightarrow> string option"

text \<open>A hash object \<open>_hashlib.HASH\<close>: its name and the bytes it has been updated with.\<close>

record HASH =
  name :: string
  fed :: "byte list"

text \<open>
  The files a hash target can name. \<open>raw\<close> is what \<open>open(p, "rb").read()\<close> returns and
  \<open>encoded\<close> is \<open>bytes(text.read(), text.encoding)\<close> for \<open>open(p, "rt")\<close>, \<open>None\<close> when
  \<open>text.read()\<close> raises \<open>UnicodeDecodeError\<close>. \<open>fs w p = None\<close> means that \<open>open\<close>
  raises. \<open>reads\<close> logs every file that was opened and read.
\<close>

record file_data =
  raw :: "byte list"
  encoded :: "byte list option"

record world =
  fs :: "string \<Rightarrow> file_data option"
  reads :: "string list"

record SplitResult =
  split_hash :: string
  split_file :: string
  split_binary :: bool

record HashEntry =
  hash_cache :: string
  hash_obj :: HASH
  raw_entry :: string
  binary :: bool
  filepath :: string

definition DEFAULT_HASH_TYPE :: string where
  "DEFAULT_HASH_TYPE = ''sha256''"

definition NL :: char where
  "NL = CHR 0x0A"

definition CR :: char where
  "CR = CHR 0x0D"

section \<open>Character classes and strip\<close>

text \<open>
  \<open>isspace\<close> is Python's notion of whitespace (\<open>str.isspace\<close>, which \<open>str.strip()\<close> and the
  regular expression class \<open>\s\<close> on a str pattern share) on the code points below 256:
  9 to 13, 28 to 32, 133 and 160.
\<close>

definition isspace :: "char \<Rightarrow> bool" where
  "isspace c = (c \<in> set [CHR 0x09, CHR 0x0A, CHR 0x0B, CHR 0x0C, CHR 0x0D,
                          CHR 0x1C, CHR 0x1D, CHR 0x1E, CHR 0x1F, CHR 0x20,
                          CHR 0x85, CHR 0xA0])"

text \<open>The class \<open>[a-fA-F0-9]\<close>.\<close>

definition ishex :: "char \<Rightarrow> bool" where
  "ishex c = (c \<in> set ''0123456789abcdefABCDEF'')"

definition strip :: "string \<Rightarrow> string" where
  "strip s = rev (dropWhile isspace (rev (dropWhile isspace s)))"

section \<open>HashEntry\<close>

text \<open>\<open>hashlib.new(value)\<close>: a fresh object, or hashlib's own \<open>ValueError\<close>.\<close>

definition hashlib_new :: "hashlib \<Rightarrow> string \<Rightarrow> error + HASH" where
  "hashlib_new lib v =
     (case new_name lib v of
        None \<Rightarrow> Inl (ValueError (''unsupported hash type '' @ v))
      | Some n \<Rightarrow> Inr \<lparr>name = n, fed = []\<rparr>)"

text \<open>\<open>HashEntry.__init__\<close>.\<close>

definition HashEntry_init ::
  "hashlib \<Rightarrow> string \<Rightarrow> bool \<Rightarrow> string option \<Rightarrow> error + HashEntry" where
  "HashEntry_init lib fp bin hash_type_arg =
     (let hash_type = (case hash_type_arg of None \<Rightarrow> DEFAULT_HASH_TYPE | Some t \<Rightarrow> t) in
      if hash_type \<notin> set (algorithms_available lib)
      then Inl (ValueError (''Unsupported hash type \"'' @ hash_type @ ''\"''))
      else case hashlib_new lib hash_type of
             Inl err \<Rightarrow> Inl err
           | Inr h \<Rightarrow> Inr \<lparr>hash_cache = [], hash_obj = h, raw_entry = [],
                           binary = bin, filepath = fp\<rparr>)"

text \<open>The property \<open>cached\<close>.\<close>

definition cached :: "HashEntry \<Rightarrow> bool" where
  "cached e = (hash_cache e \<noteq> [])"

text \<open>The getter of the property \<open>hash_type\<close>.\<close>

definition HashEntry_hash_type :: "HashEntry \<Rightarrow> string" where
  "HashEntry_hash_type e = name (hash_obj e)"

definition hexdigest_message :: string where
  "hexdigest_message = ''hexdigest() missing required argument 'length' (pos 1)''"

text \<open>
  \<open>HashEntry._hash\<close>: opens the target in the mode \<open>binary\<close> selects, feeds what it
  reads to the hash object and returns the hex digest. A failing \<open>open\<close> or a failing
  text read leaves the entry as it was; a failing \<open>hexdigest()\<close> comes after the hash
  object was updated.
\<close>

definition hash_compute ::
  "hashlib \<Rightarrow> HashEntry \<Rightarrow> world \<Rightarrow> (error + string) \<times> HashEntry \<times> world" where
  "hash_compute lib e w =
     (case fs w (filepath e) of
        None \<Rightarrow> (Inl (OSError (filepath e)), e, w)
      | Some d \<Rightarrow>
          (let w1 = w\<lparr>reads := reads w @ [filepath e]\<rparr> in
           case (if binary e then Some (raw d) else encoded d) of
             None \<Rightarrow> (Inl UnicodeDecodeError, e, w1)
           | Some data \<Rightarrow>
               (let h = (hash_obj e)\<lparr>fed := fed (hash_obj e) @ data\<rparr>;
                    e1 = e\<lparr>hash_obj := h\<rparr>
                in case hexdigest_of lib (name h) (fed h) of
                     None \<Rightarrow> (Inl (TypeError hexdigest_message), e1, w1)
                   | Some digest \<Rightarrow> (Inr digest, e1, w1))))"

text \<open>The property \<open>hash\<close>: the cache when it is not empty, else computed and cached.\<close>

definition hash_prop ::
  "hashlib \<Rightarrow> HashEntry \<Rightarrow> world \<Rightarrow> (error + string) \<times> HashEntry \<times> world" where
  "hash_prop lib e w =
     (if length (hash_cache e) > 0 then (Inr (hash_cache e), e, w)
      else case hash_compute lib e w of
             (Inl err, e', w') \<Rightarrow> (Inl err, e', w')
           | (Inr new_hash, e', w') \<Rightarrow> (Inr new_hash, e'\<lparr>hash_cache := new_hash\<rparr>, w'))"

text \<open>
  \<open>HashEntry.__str__\<close>: \<open>" ".join([self.hash, marker + self.filepath])\<close> where the marker
  is \<open>*\<close> for a binary entry and a space otherwise.
\<close>

definition to_str ::
  "hashlib \<Rightarrow> HashEntry \<Rightarrow> world \<Rightarrow> (error + string) \<times> HashEntry \<times> world" where
  "to_str lib e w =
     (case hash_prop lib e w of
        (Inl err, e', w') \<Rightarrow> (Inl err, e', w')
      | (Inr h, e', w') \<Rightarrow>
          (Inr (h @ '' '' @ ((if binary e' then ''*'' else '' '') @ filepath e')), e', w'))"

text \<open>
  The setter of \<open>hash_type\<close>. The \<open>isinstance\<close> test is the type of \<open>v\<close> here.
\<close>

definition set_hash_type :: "hashlib \<Rightarrow> HashEntry \<Rightarrow> string \<Rightarrow> error + HashEntry" where
  "set_hash_type lib e v =
     (if name (hash_obj e) = v then Inr e
      else case hashlib_new lib v of
             Inl err \<Rightarrow> Inl (ValueError (''Unsupported hash type \"'' @ v @ ''\"''))
           | Inr h \<Rightarrow> Inr (e\<lparr>hash_obj := h\<rparr>))"

text \<open>
  \<open>HashEntry._default_line_split\<close>. The pattern \<open>^([a-fA-F0-9]+)\s+(.*)$\<close> is applied to
  the stripped line and can match only at its start. The greedy first group takes the
  longest run of hex digits and cannot give any of them back, since \<open>\s\<close> matches no hex
  digit; \<open>\s+\<close> takes the longest run of whitespace that follows; the second group
  matches the remainder when it holds no line feed. The stripped line does not end in
  whitespace, so giving back whitespace to the second group cannot rescue a match that
  fails on a line feed.
\<close>

definition default_line_split :: "string \<Rightarrow> SplitResult option" where
  "default_line_split line =
     (let s = strip line;
          h = takeWhile ishex s;
          after_hash = dropWhile ishex s;
          gap = takeWhile isspace after_hash;
          rest = dropWhile isspace after_hash
      in if h = [] \<or> gap = [] \<or> NL \<in> set rest then None
         else (let is_binary = (take 1 rest = ''*'')
               in Some \<lparr>split_hash = h,
                        split_file = (if is_binary then drop 1 rest else rest),
                        split_binary = is_binary\<rparr>))"

text \<open>\<open>HashEntry.from_str\<close>.\<close>

definition from_str ::
  "hashlib \<Rightarrow> string \<Rightarrow> (string \<Rightarrow> SplitResult option) option \<Rightarrow> string option
     \<Rightarrow> error + HashEntry" where
  "from_str lib entry line_split_arg hash_type_arg =
     (let line_split = (case line_split_arg of None \<Rightarrow> default_line_split | Some f \<Rightarrow> f) in
      case line_split entry of
        None \<Rightarrow> Inl (MalformedLineError (strip entry))
      | Some split \<Rightarrow>
          (case HashEntry_init lib (split_file split) (split_binary split) hash_type_arg of
             Inl err \<Rightarrow> Inl err
           | Inr result \<Rightarrow>
               Inr (result\<lparr>hash_cache := split_hash split, raw_entry := entry\<rparr>)))"

section \<open>The text stream\<close>

text \<open>
  The file object behind a manifest, opened with mode \<open>r+t\<close>: a text layer over the
  bytes of the file, with the default \<open>newline=None\<close>. The encoding is taken to be UTF-8
  and the line separator of the platform the line feed. The bytes are kept as cells:
  \<open>Lead c\<close> is the first byte of the character \<open>c\<close>, \<open>Cont\<close> a byte that starts no
  character. A character below 128 is one byte, any other character of the model two.
  Positions, as \<open>tell()\<close> reports and \<open>seek\<close> takes them, count bytes.
\<close>

datatype cell = Lead char | Cont

definition char_width :: "char \<Rightarrow> nat" where
  "char_width c = (if (of_char c :: nat) < 128 then 1 else 2)"

definition encode_char :: "char \<Rightarrow> cell list" where
  "encode_char c = Lead c # replicate (char_width c - 1) Cont"

definition encode :: "string \<Rightarrow> cell list" where
  "encode s = concat (map encode_char s)"

text \<open>
  Decoding to the end of the data: \<open>None\<close> is \<open>UnicodeDecodeError\<close>, for a byte that
  starts no character or a character whose bytes are not all there.
\<close>

function decode :: "cell list \<Rightarrow> string option" where
  "decode [] = Some []"
| "decode (Cont # cs) = None"
| "decode (Lead c # cs) =
     (let n = char_width c - 1 in
      if take n cs = replicate n Cont then map_option ((#) c) (decode (drop n cs)) else None)"
  by pat_completeness auto
termination
  by (relation "measure length") auto

text \<open>
  Universal newlines on reading: \<open>CR LF\<close> and a lone \<open>CR\<close> are handed out as a line
  feed.
\<close>

fun translate :: "string \<Rightarrow> string" where
  "translate [] = []"
| "translate [c] = (if c = CR then [NL] else [c])"
| "translate (c # d # cs) =
     (if c = CR \<and> d = NL then NL # translate cs
      else if c = CR then NL # translate (d # cs)
      else c # translate (d # cs))"

text \<open>
  The first line of a text: the line as \<open>readline\<close> hands it out, and the characters of
  the file it stands for.
\<close>

definition first_line :: "string \<Rightarrow> string \<times> string" where
  "first_line text =
     (let body = takeWhile (\<lambda>c. c \<noteq> NL \<and> c \<noteq> CR) text in
      case drop (length body) text of
        [] \<Rightarrow> (body, body)
      | t # ts \<Rightarrow>
          if t = CR \<and> take 1 ts = [NL] then (body @ [NL], body @ [CR, NL])
          else (body @ [NL], body @ [t]))"

record file_obj =
  cells :: "cell list"
  position :: nat
  closed :: bool

definition tell_file :: "file_obj \<Rightarrow> nat" where
  "tell_file f = position f"

text \<open>\<open>seek(n)\<close> and \<open>seek(0, 2)\<close>.\<close>

definition seek :: "file_obj \<Rightarrow> nat \<Rightarrow> file_obj" where
  "seek f n = f\<lparr>position := n\<rparr>"

definition seek_end :: "file_obj \<Rightarrow> file_obj" where
  "seek_end f = f\<lparr>position := length (cells f)\<rparr>"

text \<open>
  \<open>read()\<close>: everything from the cursor on is read and decoded; the bytes are consumed
  also when decoding raises.
\<close>

definition read_rest :: "file_obj \<Rightarrow> (error + string) \<times> file_obj" where
  "read_rest f =
     (let f' = f\<lparr>position := max (position f) (length (cells f))\<rparr> in
      case decode (drop (position f) (cells f)) of
        None \<Rightarrow> (Inl UnicodeDecodeError, f')
      | Some text \<Rightarrow> (Inr (translate text), f'))"

text \<open>
  \<open>readline()\<close>: up to and including the next line break, handed out as a line feed,
  or up to the end of the file; the empty string at the end of the file. The text
  layer reads and decodes a chunk ahead: here it is everything up to the end of the
  file, as it is for a file that fits one chunk, so bytes that are not text raise on
  the first read that reaches their chunk.
\<close>

definition readline :: "file_obj \<Rightarrow> (error + string) \<times> file_obj" where
  "readline f =
     (case decode (drop (position f) (cells f)) of
        None \<Rightarrow> (Inl UnicodeDecodeError, f\<lparr>position := max (position f) (length (cells f))\<rparr>)
      | Some text \<Rightarrow>
          (case first_line text of
             (line, consumed) \<Rightarrow>
               (Inr line, f\<lparr>position := position f + length (encode consumed)\<rparr>)))"

text \<open>
  \<open>write(s)\<close>: the bytes of \<open>s\<close> overwrite the file from the cursor on and extend it
  where they reach beyond its end; a cursor beyond the end leaves a gap of NUL bytes.
\<close>

definition write_text :: "file_obj \<Rightarrow> string \<Rightarrow> file_obj" where
  "write_text f s =
     (let padded = cells f @ replicate (position f - length (cells f)) (Lead (CHR 0x00));
          bytes = encode s
      in f\<lparr>cells := take (position f) padded @ bytes @ drop (position f + length bytes) padded,
           position := position f + length bytes\<rparr>)"

section \<open>The open hash file\<close>

record OpenHashFile =
  the_file :: file_obj
  hash_type :: string
  line_split :: "(string \<Rightarrow> SplitResult option) option"

text \<open>\<open>_OpenHashFile.__init__\<close>.\<close>

definition OpenHashFile_init :: "file_obj \<Rightarrow> string \<Rightarrow> OpenHashFile" where
  "OpenHashFile_init f t = \<lparr>the_file = f, hash_type = t, line_split = None\<rparr>"

definition tell :: "OpenHashFile \<Rightarrow> nat" where
  "tell self = tell_file (the_file self)"

definition close :: "OpenHashFile \<Rightarrow> OpenHashFile" where
  "close self = self\<lparr>the_file := (the_file self)\<lparr>closed := True\<rparr>\<rparr>"

definition mismatch_message :: "string \<Rightarrow> string \<Rightarrow> string" where
  "mismatch_message expected received =
     ''Expected hash type '' @ expected @ '', but received '' @ received"

definition closed_message :: string where
  "closed_message = ''I/O operation on closed file.''"

text \<open>
  \<open>_OpenHashFile.append\<close>. The results are the outcome, the stream, the entry (whose
  cache \<open>str(entry)\<close> may fill) and the world. \<open>tell()\<close> on a closed file raises
  \<open>ValueError\<close>. The look at the last byte comes before \<open>str(entry)\<close>; an exception
  from either leaves the cursor at the end of the file, since the final \<open>seek\<close> is not
  reached.
\<close>

definition append ::
  "hashlib \<Rightarrow> OpenHashFile \<Rightarrow> HashEntry \<Rightarrow> world
     \<Rightarrow> (error + unit) \<times> OpenHashFile \<times> HashEntry \<times> world" where
  "append lib self entry w =
     (if HashEntry_hash_type entry \<noteq> hash_type self
      then (Inl (ValueError (mismatch_message (hash_type self) (HashEntry_hash_type entry))),
            self, entry, w)
      else if closed (the_file self)
      then (Inl (ValueError closed_message), self, entry, w)
      else
        (let initial_position = tell self;
             f1 = seek_end (the_file self);
             here = tell_file f1
         in case (if here \<noteq> 0
                  then (case read_rest (seek f1 (here - 1)) of
                          (Inl err, f') \<Rightarrow> (Inl err, f')
                        | (Inr s, f') \<Rightarrow> (Inr (s \<noteq> [NL]), f'))
                  else (Inr False, f1)) of
              (Inl err, f2) \<Rightarrow> (Inl err, self\<lparr>the_file := f2\<rparr>, entry, w)
            | (Inr add_newline, f2) \<Rightarrow>
                (case to_str lib entry w of
                   (Inl err, entry', w') \<Rightarrow> (Inl err, self\<lparr>the_file := f2\<rparr>, entry', w')
                 | (Inr s, entry', w') \<Rightarrow>
                     (Inr (),
                      self\<lparr>the_file :=
                        seek (write_text f2 ((if add_newline then [NL] else []) @ s @ [NL]))
                             initial_position\<rparr>,
                      entry', w'))))"

text \<open>A line that \<open>readline\<close> returns non-empty moves the cursor towards the end.\<close>

lemma encode_nonempty: "s \<noteq> [] \<Longrightarrow> 0 < length (encode s)"
  by (cases s) (simp_all add: encode_def encode_char_def)

lemma first_line_nonempty:
  "first_line text = (line, consumed) \<Longrightarrow> line \<noteq> [] \<Longrightarrow> consumed \<noteq> []"
  by (auto simp: first_line_def Let_def split: list.splits if_splits)

lemma readline_progress:
  assumes r: "readline f = (Inr line, f')" and ne: "line \<noteq> []"
  shows "length (cells f') - position f' < length (cells f) - position f"
proof -
  from r obtain decoded consumed where
    d: "decode (drop (position f) (cells f)) = Some decoded"
    and fl: "first_line decoded = (line, consumed)"
    and f': "f' = f\<lparr>position := position f + length (encode consumed)\<rparr>"
    by (auto simp: readline_def split: option.splits prod.splits)
  from fl ne have "consumed \<noteq> []" by (rule first_line_nonempty)
  then have k: "0 < length (encode consumed)" by (rule encode_nonempty)
  have "drop (position f) (cells f) \<noteq> []"
  proof
    assume "drop (position f) (cells f) = []"
    with d have "decoded = []" by simp
    with fl ne show False by (simp add: first_line_def)
  qed
  then have "position f < length (cells f)" by simp
  with k have "length (cells f) - (position f + length (encode consumed))
                 < length (cells f) - position f"
    by linarith
  with f' show ?thesis by simp
qed

text \<open>
  \<open>_OpenHashFile.entries\<close>, consumed to the end: the entries of the lines from the
  cursor on, or the first exception. \<open>readline()\<close> on a closed file raises
  \<open>ValueError\<close>.
\<close>

function entries ::
  "hashlib \<Rightarrow> OpenHashFile \<Rightarrow> (error + HashEntry list) \<times> OpenHashFile" where
  "entries lib self =
     (if closed (the_file self) then (Inl (ValueError closed_message), self)
      else
        (case readline (the_file self) of
           (Inl err, f1) \<Rightarrow> (Inl err, self\<lparr>the_file := f1\<rparr>)
         | (Inr line, f1) \<Rightarrow>
             if length line = 0 then (Inr [], self\<lparr>the_file := f1\<rparr>)
             else
               (case from_str lib line (line_split self) (Some (hash_type self)) of
                  Inl err \<Rightarrow> (Inl err, self\<lparr>the_file := f1\<rparr>)
                | Inr found \<Rightarrow>
                    (case entries lib (self\<lparr>the_file := f1\<rparr>) of
                       (Inl err, self') \<Rightarrow> (Inl err, self')
                     | (Inr rest, self') \<Rightarrow> (Inr (found # rest), self')))))"
  by pat_completeness auto
termination
  by (relation "measure (\<lambda>(lib, self).
        length (cells (the_file self)) - position (the_file self))")
     (auto dest: readline_progress [OF sym])

declare entries.simps [simp del]

text \<open>
  How the \<open>for ... else\<close> loop of \<open>_OpenHashFile.update\<close> ends: the iterator is
  exhausted and the \<open>else\<close> branch runs, or the body reached \<open>break\<close>, or an
  exception left it.
\<close>

datatype loop_exit = Exhausted | Broke | Raised error

text \<open>
  The loop of \<open>_OpenHashFile.update\<close> over \<open>self.entries()\<close>, which reads from the cursor
  on: a line whose entry has the file path of \<open>entry\<close> gets \<open>entry.hash\<close> written at
  \<open>previous_position\<close>, the position before that line was read.
\<close>

function update_loop ::
  "hashlib \<Rightarrow> OpenHashFile \<Rightarrow> HashEntry \<Rightarrow> world \<Rightarrow> nat
     \<Rightarrow> loop_exit \<times> OpenHashFile \<times> HashEntry \<times> world" where
  "update_loop lib self entry w previous_position =
     (case readline (the_file self) of
        (Inl err, f1) \<Rightarrow> (Raised err, self\<lparr>the_file := f1\<rparr>, entry, w)
      | (Inr line, f1) \<Rightarrow>
          if length line = 0 then (Exhausted, self\<lparr>the_file := f1\<rparr>, entry, w)
          else
            (case from_str lib line (line_split self) (Some (hash_type self)) of
               Inl err \<Rightarrow> (Raised err, self\<lparr>the_file := f1\<rparr>, entry, w)
             | Inr found \<Rightarrow>
                 if filepath entry = filepath found
                 then
                   (let f2 = seek f1 previous_position in
                    case hash_prop lib entry w of
                      (Inl err, entry', w') \<Rightarrow> (Raised err, self\<lparr>the_file := f2\<rparr>, entry', w')
                    | (Inr h, entry', w') \<Rightarrow>
                        (Broke, self\<lparr>the_file := write_text f2 h\<rparr>, entry', w'))
                 else update_loop lib (self\<lparr>the_file := f1\<rparr>) entry w (tell_file f1)))"
  by pat_completeness auto
termination
  by (relation "measure (\<lambda>(lib, self, entry, w, p).
        length (cells (the_file self)) - position (the_file self))")
     (auto dest: readline_progress [OF sym])

declare update_loop.simps [simp del]

text \<open>
  \<open>_OpenHashFile.update\<close>: the guard, the loop, \<open>self.append(entry)\<close> in the \<open>else\<close>
  branch, and the final \<open>seek\<close>, which an exception skips.
\<close>

definition update ::
  "hashlib \<Rightarrow> OpenHashFile \<Rightarrow> HashEntry \<Rightarrow> world
     \<Rightarrow> (error + unit) \<times> OpenHashFile \<times> HashEntry \<times> world" where
  "update lib self entry w =
     (if HashEntry_hash_type entry \<noteq> hash_type self
      then (Inl (ValueError (mismatch_message (hash_type self) (HashEntry_hash_type entry))),
            self, entry, w)
      else if closed (the_file self)
      then (Inl (ValueError closed_message), self, entry, w)
      else
        (let initial_position = tell self in
         case update_loop lib self entry w initial_position of
           (Raised err, self1, entry1, w1) \<Rightarrow> (Inl err, self1, entry1, w1)
         | (Broke, self1, entry1, w1) \<Rightarrow>
             (Inr (), self1\<lparr>the_file := seek (the_file self1) initial_position\<rparr>, entry1, w1)
         | (Exhausted, self1, entry1, w1) \<Rightarrow>
             (case append lib self1 entry1 w1 of
                (Inl err, self2, entry2, w2) \<Rightarrow> (Inl err, self2, entry2, w2)
              | (Inr u, self2, entry2, w2) \<Rightarrow>
                  (Inr (), self2\<lparr>the_file := seek (the_file self2) initial_position\<rparr>,
                   entry2, w2))))"

text \<open>
  Whether \<open>update\<close> gets to its \<open>else\<close> branch, that is, hands the entry to \<open>append\<close>.
\<close>

definition delegates :: "hashlib \<Rightarrow> OpenHashFile \<Rightarrow> HashEntry \<Rightarrow> world \<Rightarrow> bool" where
  "delegates lib self entry w =
     (HashEntry_hash_type entry = hash_type self \<and> \<not> closed (the_file self)
      \<and> fst (update_loop lib self entry w (tell self)) = Exhausted)"

section \<open>The hash file handle\<close>

text \<open>
  The \<open>_OpenHashFile\<close> objects live in a store; a reference is an index into it, so
  that two references are the same instance exactly when they are equal. Every
  \<open>open\<close> adds one object. \<open>disk st p\<close> is the text of the manifest at path \<open>p\<close>
  (\<open>None\<close> when \<open>open(p, "r+t")\<close> raises).
\<close>

record store =
  disk :: "string \<Rightarrow> string option"
  streams :: "OpenHashFile list"

record HashFile =
  count :: int
  file_ref :: "nat option"
  hf_hash_type :: string
  hf_filepath :: string

text \<open>\<open>HashFile.__init__\<close>.\<close>

definition HashFile_init :: "hashlib \<Rightarrow> string \<Rightarrow> string option \<Rightarrow> error + HashFile" where
  "HashFile_init lib fp hash_type_arg =
     (let t = (case hash_type_arg of None \<Rightarrow> DEFAULT_HASH_TYPE | Some t \<Rightarrow> t) in
      if t \<notin> set (algorithms_available lib)
      then Inl (ValueError (''Unsupported hash type \"'' @ t @ ''\"''))
      else Inr \<lparr>count = 0, file_ref = None, hf_hash_type = t, hf_filepath = fp\<rparr>)"

text \<open>\<open>HashFile.__enter__\<close>: the counter goes up before anything else happens.\<close>

definition enter :: "HashFile \<Rightarrow> store \<Rightarrow> (error + nat) \<times> HashFile \<times> store" where
  "enter h st =
     (let h1 = h\<lparr>count := count h + 1\<rparr> in
      case file_ref h1 of
        Some r \<Rightarrow> (Inr r, h1, st)
      | None \<Rightarrow>
          (case disk st (hf_filepath h1) of
             None \<Rightarrow> (Inl (OSError (hf_filepath h1)), h1, st)
           | Some text \<Rightarrow>
               (let r = length (streams st);
                    obj = OpenHashFile_init
                            \<lparr>cells = encode text, position = 0, closed = False\<rparr>
                            (hf_hash_type h1)
                in (Inr r, h1\<lparr>file_ref := Some r\<rparr>, st\<lparr>streams := streams st @ [obj]\<rparr>))))"

text \<open>\<open>HashFile.__exit__\<close>.\<close>

definition exit :: "HashFile \<Rightarrow> store \<Rightarrow> HashFile \<times> store" where
  "exit h st =
     (case file_ref h of
        None \<Rightarrow> (h, st)
      | Some r \<Rightarrow>
          (let h1 = h\<lparr>count := count h - 1\<rparr> in
           if count h1 = 0
           then (h1\<lparr>file_ref := None\<rparr>,
                 st\<lparr>streams := (streams st)[r := close (streams st ! r)]\<rparr>)
           else (h1, st)))"

section \<open>A small environment for evaluating the model\<close>

text \<open>
  A stand-in for hashlib with two algorithms and placeholder digests, a file system with
  one readable file, and an entry with a given cache, mode and path. They serve to run
  the definitions on concrete inputs; no statement below depends on the digests being
  those of a real algorithm.
\<close>

definition sample_hashlib :: hashlib where
  "sample_hashlib =
     \<lparr>algorithms_available = [''sha256'', ''md5''],
      new_name = (\<lambda>v. if v \<in> set [''sha256'', ''md5''] then Some v else None),
      hexdigest_of = (\<lambda>n d. if n = ''md5'' then Some ''d41d'' else Some ''e3b0'')\<rparr>"

definition sample_world :: world where
  "sample_world =
     \<lparr>fs = (\<lambda>p. if p = ''data.csv''
                  then Some \<lparr>raw = [0x61, 0x0D, 0x0A], encoded = Some [0x61, 0x0A]\<rparr>
                  else None),
      reads = []\<rparr>"

definition sample_entry :: "string \<Rightarrow> bool \<Rightarrow> string \<Rightarrow> HashEntry" where
  "sample_entry h b p =
     \<lparr>hash_cache = h, hash_obj = \<lparr>name = ''sha256'', fed = []\<rparr>, raw_entry = [],
      binary = b, filepath = p\<rparr>"

definition sample_stream :: "string \<Rightarrow> nat \<Rightarrow> OpenHashFile" where
  "sample_stream text p =
     OpenHashFile_init \<lparr>cells = encode text, position = p, closed = False\<rparr> ''sha256''"

section \<open>What reading the hash changes in an entry\<close>

lemma hash_compute_frame:
  "hash_compute lib e w = (r, e', w') \<Longrightarrow>
     binary e' = binary e \<and> filepath e' = filepath e \<and> hash_cache e' = hash_cache e
     \<and> raw_entry e' = raw_entry e \<and> name (hash_obj e') = name (hash_obj e)"
  by (auto simp: hash_compute_def Let_def split: option.splits if_splits)

lemma hash_prop_frame:
  "hash_prop lib e w = (r, e', w') \<Longrightarrow>
     binary e' = binary e \<and> filepath e' = filepath e \<and> raw_entry e' = raw_entry e
     \<and> name (hash_obj e') = name (hash_obj e)"
  by (auto simp: hash_prop_def split: if_splits prod.splits sum.splits dest: hash_compute_frame)

lemma hash_prop_cached:
  "hash_cache e \<noteq> [] \<Longrightarrow> hash_prop lib e w = (Inr (hash_cache e), e, w)"
  by (simp add: hash_prop_def)

section \<open>The serialized form of an entry\<close>

text \<open>
  C2, as stated: the text of an entry is the digest, one separator character (\<open>*\<close> for
  a binary entry, a space otherwise) and the file path, with nothing else in between.
  It fails: for the binary entry with digest \<open>ab\<close> and path \<open>f\<close>, \<open>__str__\<close> gives
  \<open>ab *f\<close>, with a space between the digest and the marker, and not \<open>ab*f\<close>.
\<close>

theorem to_str_counterexample:
  "fst (to_str sample_hashlib (sample_entry ''ab'' True ''f'') sample_world) = Inr ''ab *f''
   \<and> fst (to_str sample_hashlib (sample_entry ''ab'' True ''f'') sample_world)
       \<noteq> Inr (''ab'' @ ''*'' @ ''f'')"
  by (simp add: to_str_def hash_prop_def sample_entry_def)

text \<open>
  C2, amended: whenever the hash of the entry is available, the text is the digest,
  one space, the marker character (\<open>*\<close> for a binary entry, a space otherwise) and
  the file path: two characters stand between the digest and the path.
\<close>

theorem to_str_format:
  assumes "hash_prop lib e w = (Inr h, e', w')"
  shows "to_str lib e w =
           (Inr (h @ '' '' @ [if binary e then CHR ''*'' else CHR '' ''] @ filepath e), e', w')"
  using assms hash_prop_frame [OF assms] by (simp add: to_str_def)

theorem to_str_format_witness:
  "hash_prop sample_hashlib (sample_entry [] False ''data.csv'') sample_world
     = (Inr ''e3b0'',
        (sample_entry ''e3b0'' False ''data.csv'')
          \<lparr>hash_obj := \<lparr>name = ''sha256'', fed = [0x61, 0x0A]\<rparr>\<rparr>,
        sample_world\<lparr>reads := [''data.csv'']\<rparr>)
   \<and> fst (to_str sample_hashlib (sample_entry [] False ''data.csv'') sample_world)
       = Inr ''e3b0  data.csv''"
proof -
  have h: "hash_prop sample_hashlib (sample_entry [] False ''data.csv'') sample_world
     = (Inr ''e3b0'',
        (sample_entry ''e3b0'' False ''data.csv'')
          \<lparr>hash_obj := \<lparr>name = ''sha256'', fed = [0x61, 0x0A]\<rparr>\<rparr>,
        sample_world\<lparr>reads := [''data.csv'']\<rparr>)"
    by (simp add: hash_prop_def hash_compute_def sample_entry_def sample_world_def
        sample_hashlib_def Let_def)
  from to_str_format [OF h] h show ?thesis by (simp add: sample_entry_def)
qed

section \<open>The cached hash\<close>

text \<open>\<open>n\<close> successive reads of the property \<open>hash\<close>, with their results in order.\<close>

fun repeat_hash ::
  "hashlib \<Rightarrow> nat \<Rightarrow> HashEntry \<Rightarrow> world \<Rightarrow> (error + string) list \<times> HashEntry \<times> world" where
  "repeat_hash lib 0 e w = ([], e, w)"
| "repeat_hash lib (Suc n) e w =
     (case hash_prop lib e w of
        (r, e', w') \<Rightarrow> (case repeat_hash lib n e' w' of (rs, e'', w'') \<Rightarrow> (r # rs, e'', w'')))"

lemma repeat_hash_cached:
  "hash_cache e \<noteq> [] \<Longrightarrow> repeat_hash lib n e w = (replicate n (Inr (hash_cache e)), e, w)"
  by (induction n) (simp_all add: hash_prop_cached)

lemma hash_prop_uncached:
  assumes "hash_cache e = []" "fs w (filepath e) = Some d"
    and "(if binary e then Some (raw d) else encoded d) = Some data"
    and "hexdigest_of lib (name (hash_obj e)) (fed (hash_obj e) @ data) = Some h"
  shows "hash_prop lib e w =
     (Inr h,
      e\<lparr>hash_obj := (hash_obj e)\<lparr>fed := fed (hash_obj e) @ data\<rparr>, hash_cache := h\<rparr>,
      w\<lparr>reads := reads w @ [filepath e]\<rparr>)"
  using assms by (simp add: hash_prop_def hash_compute_def Let_def)

text \<open>
  C7: once the cache holds a non-empty value, any number of reads of \<open>hash\<close> return
  that value and leave the entry and the world, with its log of file reads, as they
  were. On an entry with an empty cache whose target can be opened and read and whose
  digest is not the empty string, the first read returns the digest and caches it, the
  file is read exactly once however many reads follow, and every read returns the same
  value.
\<close>

theorem hash_memoized:
  "(hash_cache e \<noteq> [] \<longrightarrow>
      repeat_hash lib n e w = (replicate n (Inr (hash_cache e)), e, w))
   \<and> (hash_cache e = [] \<and> fs w (filepath e) = Some d
       \<and> (if binary e then Some (raw d) else encoded d) = Some data
       \<and> hexdigest_of lib (name (hash_obj e)) (fed (hash_obj e) @ data) = Some h
       \<and> h \<noteq> [] \<longrightarrow>
      (\<exists>e1 w1. hash_prop lib e w = (Inr h, e1, w1)
         \<and> hash_cache e1 = h
         \<and> reads w1 = reads w @ [filepath e]
         \<and> repeat_hash lib (Suc n) e w = (replicate (Suc n) (Inr h), e1, w1)))"
proof (intro conjI impI)
  assume "hash_cache e \<noteq> []"
  then show "repeat_hash lib n e w = (replicate n (Inr (hash_cache e)), e, w)"
    by (rule repeat_hash_cached)
next
  let ?e1 = "e\<lparr>hash_obj := (hash_obj e)\<lparr>fed := fed (hash_obj e) @ data\<rparr>, hash_cache := h\<rparr>"
  let ?w1 = "w\<lparr>reads := reads w @ [filepath e]\<rparr>"
  assume a: "hash_cache e = [] \<and> fs w (filepath e) = Some d
       \<and> (if binary e then Some (raw d) else encoded d) = Some data
       \<and> hexdigest_of lib (name (hash_obj e)) (fed (hash_obj e) @ data) = Some h \<and> h \<noteq> []"
  then have first: "hash_prop lib e w = (Inr h, ?e1, ?w1)"
    using hash_prop_uncached [of e w d data lib h] by simp
  from a have "hash_cache ?e1 \<noteq> []" by simp
  then have "repeat_hash lib n ?e1 ?w1 = (replicate n (Inr (hash_cache ?e1)), ?e1, ?w1)"
    by (rule repeat_hash_cached)
  with first have "repeat_hash lib (Suc n) e w = (replicate (Suc n) (Inr h), ?e1, ?w1)"
    by simp
  with first show "\<exists>e1 w1. hash_prop lib e w = (Inr h, e1, w1)
         \<and> hash_cache e1 = h
         \<and> reads w1 = reads w @ [filepath e]
         \<and> repeat_hash lib (Suc n) e w = (replicate (Suc n) (Inr h), e1, w1)"
    by (intro exI [of _ ?e1] exI [of _ ?w1]) simp
qed

theorem hash_memoized_witness:
  "repeat_hash sample_hashlib 3 (sample_entry ''ab'' False ''gone.csv'') sample_world
     = ([Inr ''ab'', Inr ''ab'', Inr ''ab''], sample_entry ''ab'' False ''gone.csv'', sample_world)
   \<and> fst (repeat_hash sample_hashlib 2 (sample_entry [] True ''data.csv'') sample_world)
       = [Inr ''e3b0'', Inr ''e3b0'']
   \<and> reads (snd (snd (repeat_hash sample_hashlib 2 (sample_entry [] True ''data.csv'') sample_world)))
       = [''data.csv'']"
proof -
  have 1: "hash_cache (sample_entry ''ab'' False ''gone.csv'') \<noteq> []"
    by (simp add: sample_entry_def)
  have 2: "hash_cache (sample_entry [] True ''data.csv'') = []
       \<and> fs sample_world (filepath (sample_entry [] True ''data.csv''))
            = Some \<lparr>raw = [0x61, 0x0D, 0x0A], encoded = Some [0x61, 0x0A]\<rparr>
       \<and> (if binary (sample_entry [] True ''data.csv'')
            then Some (raw \<lparr>raw = [0x61, 0x0D, 0x0A], encoded = Some [0x61, 0x0A]\<rparr>)
            else encoded \<lparr>raw = [0x61, 0x0D, 0x0A], encoded = Some [0x61, 0x0A]\<rparr>)
           = Some [0x61, 0x0D, 0x0A]
       \<and> hexdigest_of sample_hashlib (name (hash_obj (sample_entry [] True ''data.csv'')))
            (fed (hash_obj (sample_entry [] True ''data.csv'')) @ [0x61, 0x0D, 0x0A]) = Some ''e3b0''
       \<and> ''e3b0'' \<noteq> []"
    by (simp add: sample_entry_def sample_world_def sample_hashlib_def)
  from hash_memoized [of "sample_entry ''ab'' False ''gone.csv''" sample_hashlib 3 sample_world]
    1 have a: "repeat_hash sample_hashlib 3 (sample_entry ''ab'' False ''gone.csv'') sample_world
     = ([Inr ''ab'', Inr ''ab'', Inr ''ab''], sample_entry ''ab'' False ''gone.csv'', sample_world)"
    by (simp add: sample_entry_def numeral_3_eq_3)
  from hash_memoized [of "sample_entry [] True ''data.csv''" sample_hashlib 1 sample_world
      "\<lparr>raw = [0x61, 0x0D, 0x0A], encoded = Some [0x61, 0x0A]\<rparr>" "[0x61, 0x0D, 0x0A]"
      "''e3b0''"] 2
  obtain e1 w1 where
    "reads w1 = reads sample_world @ [filepath (sample_entry [] True ''data.csv'')]"
    "repeat_hash sample_hashlib (Suc 1) (sample_entry [] True ''data.csv'') sample_world
       = (replicate (Suc 1) (Inr ''e3b0''), e1, w1)"
    by blast
  then have b: "fst (repeat_hash sample_hashlib 2 (sample_entry [] True ''data.csv'') sample_world)
       = [Inr ''e3b0'', Inr ''e3b0'']
   \<and> reads (snd (snd (repeat_hash sample_hashlib 2 (sample_entry [] True ''data.csv'') sample_world)))
       = [''data.csv'']"
    by (simp add: sample_entry_def sample_world_def numeral_2_eq_2)
  from a b show ?thesis by simp
qed

section \<open>Changing the hash type of an entry\<close>

text \<open>
  C8: setting \<open>hash_type\<close> to its current value returns the entry unchanged; setting
  it to another name that hashlib accepts replaces the hash object by a fresh one and
  changes nothing else, so the cached hash stays what it was.
\<close>

theorem set_hash_type_keeps_cache:
  "(HashEntry_hash_type e = v \<longrightarrow> set_hash_type lib e v = Inr e)
   \<and> (HashEntry_hash_type e \<noteq> v \<and> new_name lib v = Some n \<longrightarrow>
        set_hash_type lib e v = Inr (e\<lparr>hash_obj := \<lparr>name = n, fed = []\<rparr>\<rparr>)
        \<and> hash_cache (e\<lparr>hash_obj := \<lparr>name = n, fed = []\<rparr>\<rparr>) = hash_cache e)"
  by (simp add: set_hash_type_def HashEntry_hash_type_def hashlib_new_def)

theorem set_hash_type_keeps_cache_witness:
  "set_hash_type sample_hashlib (sample_entry ''e3b0'' False ''data.csv'') ''sha256''
     = Inr (sample_entry ''e3b0'' False ''data.csv'')
   \<and> set_hash_type sample_hashlib (sample_entry ''e3b0'' False ''data.csv'') ''md5''
     = Inr \<lparr>hash_cache = ''e3b0'', hash_obj = \<lparr>name = ''md5'', fed = []\<rparr>, raw_entry = [],
            binary = False, filepath = ''data.csv''\<rparr>"
  using set_hash_type_keeps_cache [of "sample_entry ''e3b0'' False ''data.csv''" "''sha256''" sample_hashlib]
    set_hash_type_keeps_cache [of "sample_entry ''e3b0'' False ''data.csv''" "''md5''" sample_hashlib "''md5''"]
  by (simp add: sample_entry_def sample_hashlib_def HashEntry_hash_type_def)

section \<open>The guard on the hash type\<close>

text \<open>
  C4: when the hash type of the entry differs from that of the stream, \<open>append\<close> and
  \<open>update\<close> both raise \<open>ValueError\<close> with the mismatch message and return the
  stream (contents, cursor), the entry and the world exactly as they were.
\<close>

theorem mismatch_guard:
  assumes "HashEntry_hash_type e \<noteq> hash_type s"
  shows "append lib s e w =
           (Inl (ValueError (mismatch_message (hash_type s) (HashEntry_hash_type e))), s, e, w)
       \<and> update lib s e w =
           (Inl (ValueError (mismatch_message (hash_type s) (HashEntry_hash_type e))), s, e, w)"
  using assms by (simp add: append_def update_def)

theorem mismatch_guard_witness:
  "append sample_hashlib (sample_stream ''ab  f'' 3)
       ((sample_entry ''d41d'' False ''g'')\<lparr>hash_obj := \<lparr>name = ''md5'', fed = []\<rparr>\<rparr>) sample_world
     = (Inl (ValueError ''Expected hash type sha256, but received md5''),
        sample_stream ''ab  f'' 3,
        (sample_entry ''d41d'' False ''g'')\<lparr>hash_obj := \<lparr>name = ''md5'', fed = []\<rparr>\<rparr>, sample_world)
   \<and> update sample_hashlib (sample_stream ''ab  f'' 3)
       ((sample_entry ''d41d'' False ''g'')\<lparr>hash_obj := \<lparr>name = ''md5'', fed = []\<rparr>\<rparr>) sample_world
     = (Inl (ValueError ''Expected hash type sha256, but received md5''),
        sample_stream ''ab  f'' 3,
        (sample_entry ''d41d'' False ''g'')\<lparr>hash_obj := \<lparr>name = ''md5'', fed = []\<rparr>\<rparr>, sample_world)"
  using mismatch_guard [of "(sample_entry ''d41d'' False ''g'')\<lparr>hash_obj := \<lparr>name = ''md5'', fed = []\<rparr>\<rparr>"
      "sample_stream ''ab  f'' 3" sample_hashlib sample_world]
  by (simp add: sample_entry_def sample_stream_def OpenHashFile_init_def HashEntry_hash_type_def
      mismatch_message_def)

section \<open>Counting acquisitions of the handle\<close>

text \<open>
  The state of a handle whose every \<open>open\<close> so far succeeded: no stream and a counter
  of zero, or a live, open stream of the store and a positive counter.
\<close>

definition handle_inv :: "HashFile \<Rightarrow> store \<Rightarrow> bool" where
  "handle_inv h st =
     (case file_ref h of
        None \<Rightarrow> count h = 0
      | Some r \<Rightarrow> 0 < count h \<and> r < length (streams st) \<and> \<not> closed (the_file (streams st ! r)))"

definition is_closed :: "store \<Rightarrow> nat \<Rightarrow> bool" where
  "is_closed st r = closed (the_file (streams st ! r))"

definition sample_store :: store where
  "sample_store =
     \<lparr>disk = (\<lambda>p. if p = ''manifest.sha256'' then Some ''ab  f'' else None), streams = []\<rparr>"

lemma HashFile_init_inv:
  "HashFile_init lib fp t = Inr h \<Longrightarrow> handle_inv h st \<and> count h = 0"
  by (auto simp: HashFile_init_def handle_inv_def Let_def split: if_splits)

lemma enter_count: "count (fst (snd (enter h st))) = count h + 1"
  by (simp add: enter_def Let_def split: option.splits)

lemma enter_reuse:
  assumes "handle_inv h st" "0 < count h"
  shows "\<exists>r. file_ref h = Some r \<and> enter h st = (Inr r, h\<lparr>count := count h + 1\<rparr>, st)"
  using assms by (auto simp: handle_inv_def enter_def Let_def split: option.splits)

lemma enter_first:
  assumes "handle_inv h st" "count h = 0" "disk st (hf_filepath h) = Some manifest"
  shows "enter h st =
           (Inr (length (streams st)),
            h\<lparr>count := 1, file_ref := Some (length (streams st))\<rparr>,
            st\<lparr>streams := streams st @
               [OpenHashFile_init \<lparr>cells = encode manifest, position = 0, closed = False\<rparr>
                  (hf_hash_type h)]\<rparr>)"
  using assms by (auto simp: handle_inv_def enter_def Let_def split: option.splits)

lemma enter_inv:
  assumes "handle_inv h st" "enter h st = (Inr r, h', st')"
  shows "handle_inv h' st' \<and> file_ref h' = Some r"
  using assms
  by (auto simp: handle_inv_def enter_def Let_def OpenHashFile_init_def nth_append
      split: option.splits)

lemma exit_keep:
  assumes "handle_inv h st" "1 < count h"
  shows "exit h st = (h\<lparr>count := count h - 1\<rparr>, st)"
  using assms by (auto simp: handle_inv_def exit_def Let_def split: option.splits)

lemma exit_last:
  assumes "handle_inv h st" "count h = 1"
  shows "\<exists>r. file_ref h = Some r
           \<and> exit h st = (h\<lparr>count := 0, file_ref := None\<rparr>,
                          st\<lparr>streams := (streams st)[r := close (streams st ! r)]\<rparr>)
           \<and> is_closed (snd (exit h st)) r"
  using assms
  by (auto simp: handle_inv_def exit_def Let_def is_closed_def close_def split: option.splits)

lemma exit_inv:
  assumes "handle_inv h st" "exit h st = (h', st')"
  shows "handle_inv h' st'"
  using assms
  by (auto simp: handle_inv_def exit_def Let_def split: option.splits if_splits)

lemma twice_then_release:
  assumes "handle_inv h st" "count h = 0" "disk st (hf_filepath h) = Some manifest"
  shows "(case enter h st of (r1, h1, st1) \<Rightarrow>
          case enter h1 st1 of (r2, h2, st2) \<Rightarrow>
          case exit h2 st2 of (h3, st3) \<Rightarrow>
          case exit h3 st3 of (h4, st4) \<Rightarrow>
            r1 = Inr (length (streams st)) \<and> r2 = r1 \<and> st2 = st1
            \<and> length (streams st1) = length (streams st) + 1
            \<and> count h2 = 2 \<and> count h3 = 1 \<and> st3 = st1
            \<and> \<not> is_closed st3 (length (streams st))
            \<and> count h4 = 0 \<and> file_ref h4 = None
            \<and> is_closed st4 (length (streams st)))"
  using assms
  by (simp add: enter_first)
     (simp add: enter_def exit_def Let_def is_closed_def close_def OpenHashFile_init_def)

text \<open>
  While every \<open>open\<close> succeeds the handle stays in such a state, and there
  \<open>__enter__\<close> adds one to the counter and, with a counter above zero, returns the
  reference it holds without opening a file, and \<open>__exit__\<close> takes one from the
  counter and closes the stream exactly when the counter reaches zero.
\<close>

lemma handle_counting:
  assumes "handle_inv h st"
  shows "count (fst (snd (enter h st))) = count h + 1
     \<and> (0 < count h \<longrightarrow>
           (\<exists>r. file_ref h = Some r \<and> enter h st = (Inr r, h\<lparr>count := count h + 1\<rparr>, st)))
     \<and> (\<forall>r h' st'. enter h st = (Inr r, h', st') \<longrightarrow> handle_inv h' st' \<and> file_ref h' = Some r)
     \<and> (0 < count h \<longrightarrow> count (fst (exit h st)) = count h - 1)
     \<and> (1 < count h \<longrightarrow> exit h st = (h\<lparr>count := count h - 1\<rparr>, st))
     \<and> (count h = 1 \<longrightarrow>
           (\<exists>r. file_ref h = Some r
              \<and> exit h st = (h\<lparr>count := 0, file_ref := None\<rparr>,
                             st\<lparr>streams := (streams st)[r := close (streams st ! r)]\<rparr>)
              \<and> is_closed (snd (exit h st)) r))
     \<and> handle_inv (fst (exit h st)) (snd (exit h st))
     \<and> (count h = 0 \<and> disk st (hf_filepath h) = Some manifest \<longrightarrow>
          (case enter h st of (r1, h1, st1) \<Rightarrow>
           case enter h1 st1 of (r2, h2, st2) \<Rightarrow>
           case exit h2 st2 of (h3, st3) \<Rightarrow>
           case exit h3 st3 of (h4, st4) \<Rightarrow>
             r1 = Inr (length (streams st)) \<and> r2 = r1 \<and> st2 = st1
             \<and> length (streams st1) = length (streams st) + 1
             \<and> count h2 = 2 \<and> count h3 = 1 \<and> st3 = st1
             \<and> \<not> is_closed st3 (length (streams st))
             \<and> count h4 = 0 \<and> file_ref h4 = None
             \<and> is_closed st4 (length (streams st))))"
proof (intro conjI impI allI)
  show "count (fst (snd (enter h st))) = count h + 1" by (rule enter_count)
next
  assume "0 < count h"
  with assms show "\<exists>r. file_ref h = Some r \<and> enter h st = (Inr r, h\<lparr>count := count h + 1\<rparr>, st)"
    by (rule enter_reuse)
next
  fix r h' st' assume "enter h st = (Inr r, h', st')"
  with assms have "handle_inv h' st' \<and> file_ref h' = Some r" by (rule enter_inv)
  then show "handle_inv h' st'" and "file_ref h' = Some r" by simp_all
next
  assume "0 < count h"
  with assms show "count (fst (exit h st)) = count h - 1"
    by (auto simp: handle_inv_def exit_def Let_def split: option.splits)
next
  assume "1 < count h"
  with assms show "exit h st = (h\<lparr>count := count h - 1\<rparr>, st)" by (rule exit_keep)
next
  assume "count h = 1"
  with assms show "\<exists>r. file_ref h = Some r
              \<and> exit h st = (h\<lparr>count := 0, file_ref := None\<rparr>,
                             st\<lparr>streams := (streams st)[r := close (streams st ! r)]\<rparr>)
              \<and> is_closed (snd (exit h st)) r"
    by (rule exit_last)
next
  from assms show "handle_inv (fst (exit h st)) (snd (exit h st))"
    by (rule exit_inv) simp
next
  assume "count h = 0 \<and> disk st (hf_filepath h) = Some manifest"
  with assms show "(case enter h st of (r1, h1, st1) \<Rightarrow>
           case enter h1 st1 of (r2, h2, st2) \<Rightarrow>
           case exit h2 st2 of (h3, st3) \<Rightarrow>
           case exit h3 st3 of (h4, st4) \<Rightarrow>
             r1 = Inr (length (streams st)) \<and> r2 = r1 \<and> st2 = st1
             \<and> length (streams st1) = length (streams st) + 1
             \<and> count h2 = 2 \<and> count h3 = 1 \<and> st3 = st1
             \<and> \<not> is_closed st3 (length (streams st))
             \<and> count h4 = 0 \<and> file_ref h4 = None
             \<and> is_closed st4 (length (streams st)))"
    using twice_then_release [of h st manifest] by simp
qed

definition sample_handle :: HashFile where
  "sample_handle =
     \<lparr>count = 0, file_ref = None, hf_hash_type = ''sha256'', hf_filepath = ''manifest.sha256''\<rparr>"

definition missing_store :: store where
  "missing_store = \<lparr>disk = (\<lambda>p. None), streams = []\<rparr>"

text \<open>
  C9 says that every acquisition counts up, that an acquisition with the counter above
  zero returns the stream already open, that every release counts down, and that the
  stream is closed exactly when the counter is back at zero. The code misses this
  after an \<open>open\<close> that raises, because \<open>__enter__\<close> counts before it opens: on a
  handle whose file is missing, \<open>__enter__\<close> raises and leaves the counter at 1 with
  no stream; a release then does not count down; and once the file exists, an
  acquisition with the counter at 1 opens a file, and the release that matches it
  leaves the counter at 1 and the stream open.
\<close>

theorem handle_failed_open:
  "enter sample_handle missing_store
     = (Inl (OSError ''manifest.sha256''), sample_handle\<lparr>count := 1\<rparr>, missing_store)
   \<and> exit (sample_handle\<lparr>count := 1\<rparr>) missing_store
     = (sample_handle\<lparr>count := 1\<rparr>, missing_store)
   \<and> (case enter (sample_handle\<lparr>count := 1\<rparr>) sample_store of
        (r, h2, st2) \<Rightarrow>
          r = Inr 0 \<and> count h2 = 2 \<and> length (streams st2) = 1
          \<and> (case exit h2 st2 of
                (h3, st3) \<Rightarrow> count h3 = 1 \<and> file_ref h3 = Some 0 \<and> \<not> is_closed st3 0))"
  by (simp add: enter_def exit_def sample_handle_def missing_store_def sample_store_def
      is_closed_def OpenHashFile_init_def Let_def)

text \<open>
  C10: \<open>__exit__\<close> on a handle with no stream and a counter of zero returns the handle
  and the store unchanged; the counter stays zero and the operation has no error
  outcome.
\<close>

theorem exit_without_stream:
  assumes "file_ref h = None" and "count h = 0"
  shows "exit h st = (h, st) \<and> count (fst (exit h st)) = 0"
  using assms by (simp add: exit_def)

theorem exit_without_stream_witness:
  "file_ref sample_handle = None \<and> count sample_handle = 0
   \<and> exit sample_handle sample_store = (sample_handle, sample_store)"
  using exit_without_stream [of sample_handle sample_store]
  by (simp add: sample_handle_def)

section \<open>Parsing the serialized form\<close>

lemma strip_id:
  assumes "s \<noteq> []" "\<not> isspace (hd s)" "\<not> isspace (last s)"
  shows "strip s = s"
proof -
  from assms have 1: "dropWhile isspace s = s" by (cases s) simp_all
  from assms have "rev s \<noteq> []" "\<not> isspace (hd (rev s))" by (simp_all add: hd_rev)
  then have "dropWhile isspace (rev s) = rev s" by (cases "rev s") simp_all
  with 1 show ?thesis by (simp add: strip_def)
qed

lemma char_classes [simp]:
  "\<not> ishex CHR '' ''" "\<not> ishex CHR ''*''" "isspace CHR '' ''" "\<not> isspace CHR ''*''"
  "NL \<noteq> CHR ''*''" "NL \<noteq> CHR '' ''" "isspace NL" "\<not> ishex NL"
  by (simp_all add: ishex_def isspace_def NL_def)

lemma ishex_not_space: "ishex c \<Longrightarrow> \<not> isspace c"
  by (auto simp: ishex_def isspace_def)

lemma split_serialized:
  assumes hex: "h \<noteq> []" "\<forall>c\<in>set h. ishex c"
    and nl: "NL \<notin> set fp"
    and tail: "fp \<noteq> [] \<longrightarrow> \<not> isspace (last fp)"
    and plain: "\<not> b \<longrightarrow> fp \<noteq> [] \<and> \<not> isspace (hd fp) \<and> hd fp \<noteq> CHR ''*''"
  shows "default_line_split (h @ '' '' @ [if b then CHR ''*'' else CHR '' ''] @ fp)
           = Some \<lparr>split_hash = h, split_file = fp, split_binary = b\<rparr>"
proof -
  let ?m = "if b then CHR ''*'' else CHR '' ''"
  let ?s = "h @ '' '' @ [?m] @ fp"
  from hex have hd_ok: "\<not> isspace (hd ?s)" by (cases h) (auto dest: ishex_not_space)
  from tail plain have last_ok: "\<not> isspace (last ?s)" by (cases "fp = []") auto
  have st: "strip ?s = ?s" using hd_ok last_ok by (intro strip_id) simp_all
  from hex have tw: "takeWhile ishex ?s = h" by (simp add: takeWhile_append2)
  from hex have dw: "dropWhile ishex ?s = '' '' @ [?m] @ fp" by (simp add: dropWhile_append2)
  show ?thesis
  proof (cases b)
    case True
    then show ?thesis using hex nl
      unfolding default_line_split_def st Let_def tw dw by simp
  next
    case False
    with plain obtain c cs where fp: "fp = c # cs" "\<not> isspace c" "c \<noteq> CHR ''*''"
      by (cases fp) auto
    with False show ?thesis using hex nl
      unfolding default_line_split_def st Let_def tw dw by simp
  qed
qed

text \<open>
  C3, as stated: parsing the text of an entry with a cached hash gives back its file
  path, its binary flag and its hash. It fails: the text entry with digest \<open>ab\<close> and
  the path \<open>*f\<close> is written \<open>ab  *f\<close>, which \<open>from_str\<close> reads as a binary entry with
  the path \<open>f\<close>, since \<open>\s+\<close> takes both spaces and the path then starts with the
  marker.
\<close>

theorem round_trip_counterexample:
  "fst (to_str sample_hashlib (sample_entry ''ab'' False ''*f'') sample_world) = Inr ''ab  *f''
   \<and> from_str sample_hashlib ''ab  *f'' None None
       = Inr \<lparr>hash_cache = ''ab'', hash_obj = \<lparr>name = ''sha256'', fed = []\<rparr>,
              raw_entry = ''ab  *f'', binary = True, filepath = ''f''\<rparr>
   \<and> binary (sample_entry ''ab'' False ''*f'') = False
   \<and> filepath (sample_entry ''ab'' False ''*f'') = ''*f''"
  by (simp add: to_str_def hash_prop_def sample_entry_def from_str_def default_line_split_def
      strip_def isspace_def ishex_def NL_def HashEntry_init_def hashlib_new_def
      sample_hashlib_def DEFAULT_HASH_TYPE_def Let_def)

text \<open>
  C3, amended: the round trip holds for an entry whose cached hash is a non-empty
  string of hex digits and whose file path has no line feed and no trailing
  whitespace and, for a text entry, is not empty and starts neither with whitespace
  nor with \<open>*\<close>; the hash type handed to \<open>from_str\<close> (SHA-256 by default) has to be
  one hashlib provides. Serializing such an entry touches neither it nor the file
  system.
\<close>

theorem round_trip:
  assumes cache: "hash_cache e \<noteq> []" "\<forall>c\<in>set (hash_cache e). ishex c"
    and nl: "NL \<notin> set (filepath e)"
    and tail: "filepath e \<noteq> [] \<longrightarrow> \<not> isspace (last (filepath e))"
    and plain: "\<not> binary e \<longrightarrow>
                filepath e \<noteq> [] \<and> \<not> isspace (hd (filepath e)) \<and> hd (filepath e) \<noteq> CHR ''*''"
    and lib: "(case t of None \<Rightarrow> DEFAULT_HASH_TYPE | Some x \<Rightarrow> x) \<in> set (algorithms_available lib)"
             "new_name lib (case t of None \<Rightarrow> DEFAULT_HASH_TYPE | Some x \<Rightarrow> x) = Some n"
  shows "\<exists>s r. to_str lib e w = (Inr s, e, w) \<and> from_str lib s None t = Inr r
           \<and> filepath r = filepath e \<and> binary r = binary e \<and> hash_cache r = hash_cache e"
proof -
  let ?s = "hash_cache e @ '' '' @ [if binary e then CHR ''*'' else CHR '' ''] @ filepath e"
  from cache have ser: "to_str lib e w = (Inr ?s, e, w)"
    by (simp add: to_str_def hash_prop_cached)
  have sp: "default_line_split ?s
              = Some \<lparr>split_hash = hash_cache e, split_file = filepath e, split_binary = binary e\<rparr>"
    using cache nl tail plain by (rule split_serialized)
  from lib have "from_str lib ?s None t =
      Inr \<lparr>hash_cache = hash_cache e, hash_obj = \<lparr>name = n, fed = []\<rparr>, raw_entry = ?s,
            binary = binary e, filepath = filepath e\<rparr>"
    by (simp only: from_str_def Let_def option.case sp)
       (simp add: HashEntry_init_def hashlib_new_def Let_def)
  with ser show ?thesis by simp
qed

theorem round_trip_witness:
  "fst (to_str sample_hashlib (sample_entry ''e3b0'' True ''dir/a b.csv'') sample_world)
     = Inr ''e3b0 *dir/a b.csv''
   \<and> from_str sample_hashlib ''e3b0 *dir/a b.csv'' None None
       = Inr \<lparr>hash_cache = ''e3b0'', hash_obj = \<lparr>name = ''sha256'', fed = []\<rparr>,
              raw_entry = ''e3b0 *dir/a b.csv'', binary = True, filepath = ''dir/a b.csv''\<rparr>"
proof -
  let ?e = "sample_entry ''e3b0'' True ''dir/a b.csv''"
  have "\<exists>s r. to_str sample_hashlib ?e sample_world = (Inr s, ?e, sample_world)
           \<and> from_str sample_hashlib s None None = Inr r
           \<and> filepath r = filepath ?e \<and> binary r = binary ?e \<and> hash_cache r = hash_cache ?e"
    by (rule round_trip [where n = "''sha256''"])
       (simp_all add: sample_entry_def sample_hashlib_def DEFAULT_HASH_TYPE_def ishex_def
          isspace_def NL_def)
  then obtain s r where
    s: "to_str sample_hashlib ?e sample_world = (Inr s, ?e, sample_world)"
    and r: "from_str sample_hashlib s None None = Inr r"
       "filepath r = filepath ?e" "binary r = binary ?e" "hash_cache r = hash_cache ?e"
    by blast
  have s': "s = ''e3b0 *dir/a b.csv''"
    using s by (simp add: to_str_def hash_prop_def sample_entry_def)
  have "from_str sample_hashlib ''e3b0 *dir/a b.csv'' None None
       = Inr \<lparr>hash_cache = ''e3b0'', hash_obj = \<lparr>name = ''sha256'', fed = []\<rparr>,
              raw_entry = ''e3b0 *dir/a b.csv'', binary = True, filepath = ''dir/a b.csv''\<rparr>"
    using r unfolding s'
    by (auto simp: from_str_def HashEntry_init_def hashlib_new_def sample_hashlib_def
        DEFAULT_HASH_TYPE_def Let_def sample_entry_def split: option.splits)
  with s s' show ?thesis by simp
qed

section \<open>Bytes and text\<close>

lemma encode_Nil [simp]: "encode [] = []"
  by (simp add: encode_def)

lemma encode_Cons: "encode (c # s) = encode_char c @ encode s"
  by (simp add: encode_def)

lemma encode_append: "encode (a @ b) = encode a @ encode b"
  by (simp add: encode_def)



lemma decode_encode_char: "decode (encode_char c @ cs) = map_option ((#) c) (decode cs)"
  by (simp add: encode_char_def Let_def)

lemma decode_encode_append: "decode (encode a @ cs) = map_option ((@) a) (decode cs)"
proof (induction a)
  case Nil
  show ?case by (simp add: option.map_ident)
next
  case (Cons c a)
  have "decode (encode (c # a) @ cs) = decode (encode_char c @ (encode a @ cs))"
    by (simp add: encode_Cons)
  also have "\<dots> = map_option ((#) c) (decode (encode a @ cs))"
    by (rule decode_encode_char)
  also have "\<dots> = map_option ((@) (c # a)) (decode cs)"
    by (cases "decode cs") (simp_all add: Cons.IH)
  finally show ?case .
qed

lemma decode_encode: "decode (encode s) = Some s"
  using decode_encode_append [of s "[]"] by simp

lemma decode_Some_encode: "decode cs = Some t \<Longrightarrow> cs = encode t"
proof (induction cs arbitrary: t rule: decode.induct)
  case 1
  then show ?case by simp
next
  case (2 cs)
  then show ?case by simp
next
  case (3 c cs)
  let ?n = "char_width c - 1"
  from "3.prems" have tk: "take ?n cs = replicate ?n Cont"
    by (simp add: Let_def split: if_splits)
  with "3.prems" obtain t' where t': "decode (drop ?n cs) = Some t'" "t = c # t'"
    by (auto simp: Let_def)
  from "3.IH" [OF refl tk t'(1)] have "drop ?n cs = encode t'" .
  then have "cs = replicate ?n Cont @ encode t'"
    using tk by (metis append_take_drop_id)
  with t'(2) show ?case by (simp add: encode_Cons encode_char_def)
qed



section \<open>Reading lines\<close>

lemma first_line_Nil [simp]: "first_line [] = ([], [])"
  by (simp add: first_line_def)




lemma readline_text:
  assumes "drop (position f) (cells f) = encode decoded"
    and "first_line decoded = (line, consumed)"
  shows "readline f = (Inr line, f\<lparr>position := position f + length (encode consumed)\<rparr>)"
  using assms by (simp add: readline_def decode_encode)


section \<open>What append does\<close>

text \<open>
  The look of \<open>append\<close> at the last byte of the file: no line feed is needed in an
  empty file, reading a byte that is no character raises, and otherwise a line feed is
  needed unless that character is a line break.
\<close>

definition tail_check :: "cell list \<Rightarrow> error + bool" where
  "tail_check cs =
     (if cs = [] then Inr False
      else case decode [last cs] of
             None \<Rightarrow> Inl UnicodeDecodeError
           | Some t \<Rightarrow> Inr (translate t \<noteq> [NL]))"

lemma look_eq:
  "(if tell_file (seek_end f) \<noteq> 0
    then (case read_rest (seek (seek_end f) (tell_file (seek_end f) - 1)) of
            (Inl err, f') \<Rightarrow> (Inl err, f')
          | (Inr s, f') \<Rightarrow> (Inr (s \<noteq> [NL]), f'))
    else (Inr False, seek_end f))
   = (case tail_check (cells f) of
        Inl err \<Rightarrow> (Inl err, seek_end f)
      | Inr b \<Rightarrow> (Inr b, seek_end f))"
proof (cases "cells f = []")
  case True
  then show ?thesis by (simp add: tell_file_def seek_end_def tail_check_def)
next
  case False
  let ?c = "cells f"
  from False have "drop (length ?c - 1) ?c = [last ?c]"
    by (metis append_butlast_last_id append_eq_conv_conj length_butlast)
  then have d: "drop (length ?c - Suc 0) ?c = [last ?c]" by simp
  from False show ?thesis
    by (simp add: tell_file_def seek_end_def seek_def read_rest_def tail_check_def d Let_def
        split: option.splits)
qed

lemma write_at_end:
  "write_text (seek_end f) s = f\<lparr>cells := cells f @ encode s,
                                  position := length (cells f) + length (encode s)\<rparr>"
  by (simp add: write_text_def seek_end_def Let_def)

lemma append_unfold:
  assumes ty: "HashEntry_hash_type e = hash_type self" and op: "\<not> closed (the_file self)"
  shows "append lib self e w =
     (case tail_check (cells (the_file self)) of
        Inl err \<Rightarrow>
          (Inl err, self\<lparr>the_file := seek_end (the_file self)\<rparr>, e, w)
      | Inr add_newline \<Rightarrow>
          (case to_str lib e w of
             (Inl err, e', w') \<Rightarrow>
               (Inl err, self\<lparr>the_file := seek_end (the_file self)\<rparr>, e', w')
           | (Inr s, e', w') \<Rightarrow>
               (Inr (),
                self\<lparr>the_file := (the_file self)
                   \<lparr>cells := cells (the_file self)
                      @ encode ((if add_newline then [NL] else []) @ s @ [NL])\<rparr>\<rparr>,
                e', w')))"
proof -
  obtain r e' w' where ser: "to_str lib e w = (r, e', w')" by (cases "to_str lib e w") auto
  have "append lib self e w =
     (case (case tail_check (cells (the_file self)) of
              Inl err \<Rightarrow> (Inl err, seek_end (the_file self))
            | Inr b \<Rightarrow> (Inr b, seek_end (the_file self))) of
        (Inl err, f2) \<Rightarrow> (Inl err, self\<lparr>the_file := f2\<rparr>, e, w)
      | (Inr add_newline, f2) \<Rightarrow>
          (case to_str lib e w of
             (Inl err, entry', w') \<Rightarrow> (Inl err, self\<lparr>the_file := f2\<rparr>, entry', w')
           | (Inr s, entry', w') \<Rightarrow>
               (Inr (),
                self\<lparr>the_file :=
                  seek (write_text f2 ((if add_newline then [NL] else []) @ s @ [NL]))
                       (tell_file (the_file self))\<rparr>,
                entry', w')))"
    using ty op unfolding append_def Let_def tell_def look_eq by simp
  also have "\<dots> =
     (case tail_check (cells (the_file self)) of
        Inl err \<Rightarrow>
          (Inl err, self\<lparr>the_file := seek_end (the_file self)\<rparr>, e, w)
      | Inr add_newline \<Rightarrow>
          (case to_str lib e w of
             (Inl err, e', w') \<Rightarrow>
               (Inl err, self\<lparr>the_file := seek_end (the_file self)\<rparr>, e', w')
           | (Inr s, e', w') \<Rightarrow>
               (Inr (),
                self\<lparr>the_file := (the_file self)
                   \<lparr>cells := cells (the_file self)
                      @ encode ((if add_newline then [NL] else []) @ s @ [NL])\<rparr>\<rparr>,
                e', w')))"
    unfolding ser
    by (cases "tail_check (cells (the_file self))"; cases r)
       (simp_all add: write_at_end seek_def tell_file_def)
  finally show ?thesis .
qed


section \<open>Where the loop of update ends\<close>




section \<open>The scan of update\<close>



lemmas eval_defs =
  update_def update_loop.simps append_def to_str_def hash_prop_def hash_compute_def
  readline_def read_rest_def first_line_def seek_def seek_end_def write_text_def tell_def
  tell_file_def encode_def encode_char_def char_width_def
  from_str_def default_line_split_def strip_def isspace_def ishex_def HashEntry_init_def
  hashlib_new_def sample_hashlib_def sample_world_def HashEntry_hash_type_def sample_stream_def
  OpenHashFile_init_def sample_entry_def Let_def NL_def CR_def entries.simps delegates_def




text \<open>
  A line that is no entry ends the scan with \<open>MalformedLineError\<close>: nothing is
  appended, although no line has the file path.
\<close>

lemma update_malformed_line:
  "update sample_hashlib (sample_stream (''zz'' @ [NL]) 0) (sample_entry ''cd'' False ''f'')
     sample_world
     = (Inl (MalformedLineError ''zz''), sample_stream (''zz'' @ [NL]) 3,
        sample_entry ''cd'' False ''f'', sample_world)
   \<and> \<not> delegates sample_hashlib (sample_stream (''zz'' @ [NL]) 0)
         (sample_entry ''cd'' False ''f'') sample_world"
  by (simp add: eval_defs)

section \<open>The file after append\<close>

lemma decode_single:
  "decode [x] = Some t \<Longrightarrow> \<exists>c. x = Lead c \<and> char_width c = 1 \<and> t = [c]"
  by (cases x) (auto simp: Let_def char_width_def split: if_splits)

lemma tail_check_Inr:
  assumes "tail_check cs = Inr nl"
  shows "cs = [] \<and> \<not> nl
         \<or> (\<exists>c. cs \<noteq> [] \<and> last cs = Lead c \<and> char_width c = 1
                \<and> nl = (c \<noteq> NL \<and> c \<noteq> CR))"
proof (cases "cs = []")
  case True
  with assms show ?thesis by (simp add: tail_check_def)
next
  case False
  with assms obtain t where t: "decode [last cs] = Some t" "nl = (translate t \<noteq> [NL])"
    by (auto simp: tail_check_def split: option.splits)
  from decode_single [OF t(1)] obtain c where
    c: "last cs = Lead c" "char_width c = 1" "t = [c]" by blast
  with t(2) have "nl = (c \<noteq> NL \<and> c \<noteq> CR)" by (auto simp: NL_def CR_def)
  with False c show ?thesis by blast
qed

lemma split_decode:
  "decode (a @ b) = Some t \<Longrightarrow> a = [] \<or> (\<exists>c. last a = Lead c \<and> char_width c = 1)
     \<Longrightarrow> \<exists>ta. decode a = Some ta"
proof (induction a arbitrary: t rule: decode.induct)
  case 1
  show ?case by simp
next
  case (2 cs)
  then show ?case by simp
next
  case (3 c cs)
  let ?n = "char_width c - 1"
  from "3.prems"(1) have tk: "take ?n (cs @ b) = replicate ?n Cont"
    and "\<exists>t'. decode (drop ?n (cs @ b)) = Some t'"
    by (auto simp: Let_def split: if_splits)
  then obtain t' where t': "decode (drop ?n (cs @ b)) = Some t'" by blast
  have n: "?n = 0 \<or> ?n = 1" by (simp add: char_width_def)
  have fits: "?n \<le> length cs"
  proof (rule ccontr)
    assume "\<not> ?n \<le> length cs"
    then have "length cs < ?n" by simp
    with n have "?n = 1" and "length cs = 0" by linarith+
    then have "char_width c = 2" and "cs = []" by (simp_all add: char_width_def split: if_splits)
    with "3.prems"(2) show False by simp
  qed
  then have tk': "take ?n cs = replicate ?n Cont" using tk by simp
  from fits have dr: "drop ?n (cs @ b) = drop ?n cs @ b" by simp
  have tailok: "drop ?n cs = [] \<or> (\<exists>d. last (drop ?n cs) = Lead d \<and> char_width d = 1)"
  proof (cases "drop ?n cs = []")
    case True
    then show ?thesis by simp
  next
    case False
    then have "cs \<noteq> []" by auto
    with "3.prems"(2) obtain d where "last cs = Lead d" "char_width d = 1" by auto
    with False show ?thesis by (simp add: last_drop)
  qed
  from "3.IH" [OF refl tk' t' [unfolded dr] tailok] obtain ta where
    "decode (drop ?n cs) = Some ta" by blast
  with tk' show ?case by (simp add: Let_def)
qed

lemma last_encode:
  "t \<noteq> [] \<Longrightarrow> last (encode t) = Lead c \<Longrightarrow> last t = c"
proof (induction t rule: rev_induct)
  case Nil
  then show ?case by simp
next
  case (snoc x xs)
  then show ?case
    by (auto simp: encode_append encode_Cons encode_char_def char_width_def split: if_splits)
qed

lemma first_line_last:
  assumes "NL \<notin> set s" "CR \<notin> set s"
  shows "first_line (s @ [NL]) = (s @ [NL], s @ [NL])"
proof -
  from assms have "takeWhile (\<lambda>c. c \<noteq> NL \<and> c \<noteq> CR) (s @ [NL]) = s"
    by (subst takeWhile_append2) auto
  then show ?thesis by (simp add: first_line_def NL_def CR_def)
qed

lemma last_suffix: "R = a @ b \<Longrightarrow> b = [] \<or> last b = last R"
  by (cases "b = []") simp_all

lemma first_line_prefix:
  assumes R: "R \<noteq> []" "last R = NL \<or> last R = CR"
    and tl: "rest \<noteq> []" "hd rest \<noteq> NL"
  shows "\<exists>line consumed R'. first_line (R @ rest) = (line, consumed) \<and> line \<noteq> []
           \<and> R = consumed @ R' \<and> consumed \<noteq> [] \<and> (R' = [] \<or> last R' = last R)"
proof -
  let ?P = "\<lambda>c. c \<noteq> NL \<and> c \<noteq> CR"
  let ?body = "takeWhile ?P R"
  from R have "\<not> ?P (last R)" by auto
  with R(1) have lin: "last R \<in> set R" and np: "\<not> ?P (last R)" by simp_all
  have tw: "takeWhile ?P (R @ rest) = ?body" using lin np by (rule takeWhile_append1)
  from lin np have "dropWhile ?P R \<noteq> []" by (auto simp: dropWhile_eq_Nil_conv)
  then obtain t ts where d: "dropWhile ?P R = t # ts" by (cases "dropWhile ?P R") auto
  then have t: "\<not> ?P t" using hd_dropWhile [of ?P R] by auto
  from d have whole: "R = ?body @ t # ts" by (metis takeWhile_dropWhile_id)
  have dr: "drop (length ?body) (R @ rest) = t # (ts @ rest)"
    using whole by (metis append_Cons append_assoc append_eq_conv_conj)
  show ?thesis
  proof (cases "t = CR \<and> take 1 (ts @ rest) = [NL]")
    case True
    have "ts \<noteq> []"
    proof
      assume "ts = []"
      with True tl show False by (cases rest) auto
    qed
    with True obtain ts' where ts: "ts = NL # ts'" by (cases ts) auto
    from True have fl: "first_line (R @ rest) = (?body @ [NL], ?body @ [CR, NL])"
      unfolding first_line_def Let_def tw dr by simp
    from whole ts True have "R = (?body @ [CR, NL]) @ ts'" by simp
    moreover from this have "ts' = [] \<or> last ts' = last R" by (rule last_suffix)
    ultimately show ?thesis using fl by blast
  next
    case False
    then have fl: "first_line (R @ rest) = (?body @ [NL], ?body @ [t])"
      unfolding first_line_def Let_def tw dr by auto
    from whole have "R = (?body @ [t]) @ ts" by simp
    moreover from this have "ts = [] \<or> last ts = last R" by (rule last_suffix)
    ultimately show ?thesis using fl by blast
  qed
qed

lemma from_str_raw:
  "from_str lib line ls ht = Inr found \<Longrightarrow> raw_entry found = line"
  by (auto simp: from_str_def Let_def split: option.splits sum.splits)

lemma entries_open:
  "entries lib self = (Inr es, s') \<Longrightarrow> \<not> closed (the_file self)"
  by (subst (asm) entries.simps) (auto split: if_splits)

lemma entries_step:
  assumes "entries lib self = (Inr es, s')" "readline (the_file self) = (Inr line, f1)"
    "line \<noteq> []"
  shows "\<exists>found rest. from_str lib line (line_split self) (Some (hash_type self)) = Inr found
           \<and> entries lib (self\<lparr>the_file := f1\<rparr>) = (Inr rest, s') \<and> es = found # rest"
  using assms entries_open [OF assms(1)]
  by (subst (asm) entries.simps) (auto split: sum.splits prod.splits)

lemma entries_eof:
  assumes "entries lib self = (Inr es, s')"
    "drop (position (the_file self)) (cells (the_file self)) = []"
  shows "es = []"
proof -
  from assms(2) have "readline (the_file self) = (Inr [], the_file self)"
    by (simp add: readline_def)
  with assms(1) entries_open [OF assms(1)] show ?thesis
    by (subst (asm) entries.simps) simp
qed

lemma drop_advance:
  assumes "drop p xs = a @ b"
  shows "drop (p + length a) xs = b"
proof -
  have "drop (p + length a) xs = drop (length a) (drop p xs)" by (simp add: add.commute)
  with assms show ?thesis by simp
qed

lemma entries_last:
  assumes "drop (position (the_file self)) (cells (the_file self)) = encode (R @ s @ [NL])"
    and "R = [] \<or> last R = NL \<or> last R = CR"
    and "s \<noteq> []" "NL \<notin> set s" "CR \<notin> set s"
    and "entries lib self = (Inr es, s')"
  shows "es \<noteq> [] \<and> raw_entry (last es) = s @ [NL]"
  using assms
proof (induction "length R" arbitrary: R self es rule: less_induct)
  case less
  let ?f = "the_file self"
  show ?case
  proof (cases "R = []")
    case True
    from less.prems(4,5) have fl: "first_line (s @ [NL]) = (s @ [NL], s @ [NL])"
      by (rule first_line_last)
    from less.prems(1) True have enc: "drop (position ?f) (cells ?f) = encode (s @ [NL])"
      by simp
    let ?f1 = "?f\<lparr>position := position ?f + length (encode (s @ [NL]))\<rparr>"
    from readline_text [OF enc fl] have rd: "readline ?f = (Inr (s @ [NL]), ?f1)" .
    from entries_step [OF less.prems(6) rd] obtain found rest where
      fr: "from_str lib (s @ [NL]) (line_split self) (Some (hash_type self)) = Inr found"
      "entries lib (self\<lparr>the_file := ?f1\<rparr>) = (Inr rest, s')" "es = found # rest"
      by auto
    from enc have "drop (position ?f) (cells ?f) = encode (s @ [NL]) @ []" by simp
    then have "drop (position ?f + length (encode (s @ [NL]))) (cells ?f) = []"
      by (rule drop_advance)
    then have "drop (position (the_file (self\<lparr>the_file := ?f1\<rparr>)))
                 (cells (the_file (self\<lparr>the_file := ?f1\<rparr>))) = []" by simp
    from entries_eof [OF fr(2) this] have "rest = []" .
    with fr from_str_raw [OF fr(1)] show ?thesis by simp
  next
    case False
    with less.prems(2) have lastR: "last R = NL \<or> last R = CR" by simp
    have tl1: "s @ [NL] \<noteq> []" by simp
    from less.prems(3,4) have tl2: "hd (s @ [NL]) \<noteq> NL" by (cases s) auto
    note tl = tl1 tl2
    from first_line_prefix [OF False lastR tl] obtain line consumed R' where
      fl: "first_line (R @ s @ [NL]) = (line, consumed)" and ne: "line \<noteq> []"
      and R: "R = consumed @ R'" and cne: "consumed \<noteq> []"
      and R': "R' = [] \<or> last R' = last R" by blast
    let ?f1 = "?f\<lparr>position := position ?f + length (encode consumed)\<rparr>"
    from readline_text [OF less.prems(1) fl] have rd: "readline ?f = (Inr line, ?f1)" .
    from entries_step [OF less.prems(6) rd ne] obtain found rest where
      fr: "entries lib (self\<lparr>the_file := ?f1\<rparr>) = (Inr rest, s')" "es = found # rest"
      by auto
    have "encode (R @ s @ [NL]) = encode consumed @ encode (R' @ s @ [NL])"
      by (subst R) (simp add: encode_append)
    with less.prems(1)
    have "drop (position ?f) (cells ?f) = encode consumed @ encode (R' @ s @ [NL])"
      by (rule trans)
    then have "drop (position ?f + length (encode consumed)) (cells ?f)
                 = encode (R' @ s @ [NL])"
      by (rule drop_advance)
    then have d1: "drop (position (the_file (self\<lparr>the_file := ?f1\<rparr>)))
                     (cells (the_file (self\<lparr>the_file := ?f1\<rparr>))) = encode (R' @ s @ [NL])"
      by simp
    from R cne have shorter: "length R' < length R" by simp
    from R' lastR have R'': "R' = [] \<or> last R' = NL \<or> last R' = CR" by auto
    from less.hyps [OF shorter d1 R'' less.prems(3,4,5) fr(1)]
    have "rest \<noteq> [] \<and> raw_entry (last rest) = s @ [NL]" .
    with fr(2) show ?thesis by simp
  qed
qed

lemma to_str_nonempty: "to_str lib e w = (Inr s, e', w') \<Longrightarrow> s \<noteq> []"
  by (auto simp: to_str_def split: prod.splits sum.splits)

lemma entries_decodes:
  assumes "entries lib self = (Inr es, s')"
  shows "\<exists>t. decode (drop (position (the_file self)) (cells (the_file self))) = Some t"
  using assms entries_open [OF assms]
  by (subst (asm) entries.simps) (auto simp: readline_def split: option.splits)

lemma encode_eq_Nil: "encode t = [] \<Longrightarrow> t = []"
  by (cases t) (simp_all add: encode_Cons encode_char_def)

text \<open>
  C5, as stated: for every entry of the stream's hash type, \<open>append\<close> leaves the cursor
  where it was, and a scan of the file from offset 0 yields the new entry as the last
  line. It fails where \<open>append\<close> raises: for an entry without a cached hash whose
  target cannot be opened, \<open>str(entry)\<close> raises after the cursor went to the end of
  the file, so the cursor was at 3 and is left at 5; and on a file that ends in a
  character of two bytes, the read of the last byte raises, with the cursor left at
  the end as well. It fails for the scan too: after a successful \<open>append\<close> to a
  manifest whose line \<open>zz\<close> is no entry, the scan from offset 0 raises and yields
  nothing; and for an entry whose path holds a line feed, the scan completes with the
  second half of the path as its last line.
\<close>

theorem append_counterexample:
  "append sample_hashlib (sample_stream ''ab  f'' 3) (sample_entry [] True ''gone.csv'')
     sample_world
     = (Inl (OSError ''gone.csv''), sample_stream ''ab  f'' 5,
        sample_entry [] True ''gone.csv'', sample_world)
   \<and> append sample_hashlib (sample_stream (''ab  '' @ [CHR 0xE9]) 3)
       (sample_entry ''cd'' False ''g'') sample_world
     = (Inl UnicodeDecodeError, sample_stream (''ab  '' @ [CHR 0xE9]) 6,
        sample_entry ''cd'' False ''g'', sample_world)
   \<and> append sample_hashlib (sample_stream (''zz'' @ [NL]) 0) (sample_entry ''cd'' False ''g'')
       sample_world
     = (Inr (), sample_stream (''zz'' @ [NL] @ ''cd  g'' @ [NL]) 0,
        sample_entry ''cd'' False ''g'', sample_world)
   \<and> fst (entries sample_hashlib (sample_stream (''zz'' @ [NL] @ ''cd  g'' @ [NL]) 0))
     = Inl (MalformedLineError ''zz'')
   \<and> append sample_hashlib (sample_stream [] 0)
       (sample_entry ''cd'' False (''a'' @ [NL] @ ''ab  g'')) sample_world
     = (Inr (), sample_stream (''cd  a'' @ [NL] @ ''ab  g'' @ [NL]) 0,
        sample_entry ''cd'' False (''a'' @ [NL] @ ''ab  g''), sample_world)
   \<and> map_sum id (map raw_entry)
       (fst (entries sample_hashlib (sample_stream (''cd  a'' @ [NL] @ ''ab  g'' @ [NL]) 0)))
     = Inr [''cd  a'' @ [NL], ''ab  g'' @ [NL]]"
  by (simp add: eval_defs)

text \<open>
  C5, amended: on an open stream at any position and for an entry of the stream's hash
  type, whenever \<open>append\<close> completes without raising, the cursor is where it was and
  the file is the old file followed by a line feed (only when the old file is not
  empty and does not end in a line break), the text of the entry and a line feed;
  and whenever, in addition, that text holds no line break and a scan of the entries
  from offset 0 after the call completes, the last entry it yields is the one read
  from that new last line.
\<close>

theorem append_keeps_cursor:
  assumes ty: "HashEntry_hash_type e = hash_type self" and op: "\<not> closed (the_file self)"
    and ok: "append lib self e w = (Inr u, self', e', w')"
  shows "\<exists>s nl. to_str lib e w = (Inr s, e', w')
           \<and> nl = (cells (the_file self) \<noteq> []
                   \<and> last (cells (the_file self)) \<noteq> Lead NL
                   \<and> last (cells (the_file self)) \<noteq> Lead CR)
           \<and> position (the_file self') = position (the_file self)
           \<and> cells (the_file self') =
                cells (the_file self) @ encode ((if nl then [NL] else []) @ s @ [NL])
           \<and> (\<forall>es s''. NL \<notin> set s \<and> CR \<notin> set s
                  \<and> entries lib (self'\<lparr>the_file := seek (the_file self') 0\<rparr>) = (Inr es, s'')
                  \<longrightarrow> es \<noteq> [] \<and> raw_entry (last es) = s @ [NL])"
proof -
  let ?c = "cells (the_file self)"
  from ok obtain nl where tc: "tail_check ?c = Inr nl"
    unfolding append_unfold [OF ty op] by (cases "tail_check ?c") auto
  from ok tc obtain s where ser: "to_str lib e w = (Inr s, e', w')"
    and self': "self' = self\<lparr>the_file := (the_file self)
                   \<lparr>cells := ?c @ encode ((if nl then [NL] else []) @ s @ [NL])\<rparr>\<rparr>"
    unfolding append_unfold [OF ty op]
    by (cases "to_str lib e w") (auto split: sum.splits)
  note tail = tail_check_Inr [OF tc]
  from tail have nl: "nl = (?c \<noteq> [] \<and> last ?c \<noteq> Lead NL \<and> last ?c \<noteq> Lead CR)"
    by auto
  let ?sep = "if nl then [NL] else []"
  have scan: "es \<noteq> [] \<and> raw_entry (last es) = s @ [NL]"
    if a: "NL \<notin> set s \<and> CR \<notin> set s
           \<and> entries lib (self'\<lparr>the_file := seek (the_file self') 0\<rparr>) = (Inr es, s'')"
    for es s''
  proof -
    let ?self0 = "self'\<lparr>the_file := seek (the_file self') 0\<rparr>"
    from a have en: "entries lib ?self0 = (Inr es, s'')" by simp
    have c0: "cells (the_file ?self0) = ?c @ encode (?sep @ s @ [NL])"
      and p0: "position (the_file ?self0) = 0"
      by (simp_all add: self' seek_def)
    from entries_decodes [OF en] c0 p0 obtain t where
      "decode (?c @ encode (?sep @ s @ [NL])) = Some t" by auto
    moreover from tail have "?c = [] \<or> (\<exists>c. last ?c = Lead c \<and> char_width c = 1)" by auto
    ultimately obtain T where "decode ?c = Some T" using split_decode by blast
    then have T: "?c = encode T" by (rule decode_Some_encode)
    have R: "T @ ?sep = [] \<or> last (T @ ?sep) = NL \<or> last (T @ ?sep) = CR"
    proof (cases nl)
      case True
      then show ?thesis by simp
    next
      case False
      with tail consider "?c = []"
        | c where "?c \<noteq> []" "last ?c = Lead c" "c = NL \<or> c = CR" by auto
      then show ?thesis
      proof cases
        case 1
        with T have "T = []" by (simp add: encode_eq_Nil)
        with False show ?thesis by simp
      next
        case 2
        with T have "T \<noteq> []" by auto
        moreover from 2 T have "last (encode T) = Lead c" by simp
        ultimately have "last T = c" by (rule last_encode)
        with 2 False \<open>T \<noteq> []\<close> show ?thesis by auto
      qed
    qed
    have "drop (position (the_file ?self0)) (cells (the_file ?self0))
            = encode ((T @ ?sep) @ s @ [NL])"
      unfolding c0 p0 by (subst T) (simp add: encode_append)
    from entries_last [OF this R to_str_nonempty [OF ser] _ _ en] a show ?thesis by simp
  qed
  show ?thesis
    apply (rule exI [of _ s], rule exI [of _ nl])
    using ser nl scan by (simp add: self')
qed

theorem append_keeps_cursor_witness:
  "append sample_hashlib (sample_stream ''ab  f'' 3) (sample_entry ''cd'' True ''g'') sample_world
     = (Inr (), sample_stream (''ab  f'' @ [NL] @ ''cd *g'' @ [NL]) 3,
        sample_entry ''cd'' True ''g'', sample_world)
   \<and> (\<exists>es s''. entries sample_hashlib (sample_stream (''ab  f'' @ [NL] @ ''cd *g'' @ [NL]) 0)
                   = (Inr es, s'')
         \<and> raw_entry (last es) = ''cd *g'' @ [NL])"
proof -
  let ?e = "sample_entry ''cd'' True ''g''"
  let ?s = "sample_stream ''ab  f'' 3"
  let ?s' = "sample_stream (''ab  f'' @ [NL] @ ''cd *g'' @ [NL]) 3"
  have ty: "HashEntry_hash_type ?e = hash_type ?s" and op: "\<not> closed (the_file ?s)"
    by (simp_all add: sample_entry_def sample_stream_def OpenHashFile_init_def
          HashEntry_hash_type_def)
  have ev: "append sample_hashlib ?s ?e sample_world = (Inr (), ?s', ?e, sample_world)"
    by (simp add: eval_defs)
  have rew: "?s'\<lparr>the_file := seek (the_file ?s') 0\<rparr>
               = sample_stream (''ab  f'' @ [NL] @ ''cd *g'' @ [NL]) 0"
    by (simp add: sample_stream_def OpenHashFile_init_def seek_def)
  obtain es s'' where
    sc: "entries sample_hashlib (sample_stream (''ab  f'' @ [NL] @ ''cd *g'' @ [NL]) 0)
           = (Inr es, s'')"
    by (simp add: eval_defs)
  from append_keeps_cursor [OF ty op ev] obtain s nl where
    ser: "to_str sample_hashlib ?e sample_world = (Inr s, ?e, sample_world)"
    and scan: "\<forall>es s''. NL \<notin> set s \<and> CR \<notin> set s
                  \<and> entries sample_hashlib (?s'\<lparr>the_file := seek (the_file ?s') 0\<rparr>)
                      = (Inr es, s'')
                  \<longrightarrow> es \<noteq> [] \<and> raw_entry (last es) = s @ [NL]"
    by blast
  have s: "s = ''cd *g''" using ser by (simp add: to_str_def hash_prop_def sample_entry_def)
  from scan sc have "raw_entry (last es) = ''cd *g'' @ [NL]"
    unfolding rew s by (simp add: NL_def CR_def)
  with ev sc show ?thesis by blast
qed

text \<open>
  When \<open>append\<close> completes: the last byte of the file, if there is one, is a character
  of its own, and the text of the entry can be produced.
\<close>

lemma append_completes:
  assumes ty: "HashEntry_hash_type e = hash_type self" and op: "\<not> closed (the_file self)"
  shows "(\<exists>u self' e' w'. append lib self e w = (Inr u, self', e', w'))
         \<longleftrightarrow> (\<exists>nl. tail_check (cells (the_file self)) = Inr nl)
             \<and> (\<exists>s e' w'. to_str lib e w = (Inr s, e', w'))"
  unfolding append_unfold [OF ty op]
  by (cases "tail_check (cells (the_file self))"; cases "to_str lib e w")
     (auto split: sum.splits)

text \<open>
  A carriage return is a line break: a file that ends in one gets no extra line feed,
  and a lone carriage return ends a line as a line feed does.
\<close>

lemma append_after_carriage_return:
  "append sample_hashlib (sample_stream (''ab  f'' @ [CR]) 0) (sample_entry ''cd'' False ''g'')
     sample_world
     = (Inr (), sample_stream (''ab  f'' @ [CR] @ ''cd  g'' @ [NL]) 0,
        sample_entry ''cd'' False ''g'', sample_world)"
  by (simp add: eval_defs)

lemma entries_carriage_return:
  "map_sum id (map raw_entry)
     (fst (entries sample_hashlib (sample_stream (''ab  f'' @ [CR] @ ''cd  g'' @ [CR, NL]) 0)))
     = Inr [''ab  f'' @ [NL], ''cd  g'' @ [NL]]"
  by (simp add: eval_defs)

section \<open>The write of update\<close>













end
